theory Spec2Isabelle
  imports Main "HOL-Library.Word" "HOL-Library.Log_Nat"
begin

section \<open>Bytes and Python's byte-string operations\<close>

text \<open>
  A Python \<^verbatim>\<open>bytes\<close> object is a list of 8-bit words; Python integers are
  unbounded and modelled by \<^typ>\<open>int\<close>.
\<close>

type_synonym byte = "8 word"

text \<open>\<^verbatim>\<open>sum(bs)\<close> over a bytes object: the integer sum of the byte values.\<close>

definition py_sum :: "byte list \<Rightarrow> int" where
  "py_sum bs = sum_list (map uint bs)"

text \<open>\<^verbatim>\<open>int.from_bytes(bs, byteorder='big')\<close>.\<close>

definition from_bytes_big :: "byte list \<Rightarrow> int" where
  "from_bytes_big bs = foldl (\<lambda>acc b. acc * 256 + uint b) 0 bs"

text \<open>
  The slice \<^verbatim>\<open>bs[i:j]\<close> with literal bounds \<open>0 \<le> i \<le> j\<close>; Python clips a slice
  at the end of the sequence, as \<^const>\<open>take\<close> and \<^const>\<open>drop\<close> do.
\<close>

definition slice :: "'a list \<Rightarrow> nat \<Rightarrow> nat \<Rightarrow> 'a list" where
  "slice bs i j = take (j - i) (drop i bs)"

text \<open>
  \<^verbatim>\<open>bs[:-2]\<close> and \<^verbatim>\<open>bs[-2:]\<close>. On a sequence shorter than two elements Python
  gives the empty sequence and the whole sequence; truncating subtraction on
  \<^typ>\<open>nat\<close> yields the same.
\<close>

definition all_but_last2 :: "'a list \<Rightarrow> 'a list" where
  "all_but_last2 bs = take (length bs - 2) bs"

definition last2 :: "'a list \<Rightarrow> 'a list" where
  "last2 bs = drop (length bs - 2) bs"

section \<open>Protocol constants of \<^verbatim>\<open>PSM5000Reader\<close>\<close>

definition HEADER :: "byte list" where
  "HEADER = [0x42, 0x4D]"

definition FRAME_LENGTH :: nat where
  "FRAME_LENGTH = 32"

section \<open>\<^verbatim>\<open>_validate_checksum\<close> (the same text in data.py and main.py)\<close>

definition validate_checksum :: "byte list \<Rightarrow> bool" where
  "validate_checksum data =
     (if length data \<noteq> FRAME_LENGTH then False
      else
        let calculated_sum = py_sum (all_but_last2 data);
            received_checksum = from_bytes_big (last2 data)
        in calculated_sum = received_checksum)"

section \<open>Python floats\<close>

text \<open>
  A finite IEEE 754 binary64 value is a rational number, so Python floats are
  modelled by \<^typ>\<open>rat\<close> and every float operation rounds its exact result to the
  nearest binary64 value, ties to the even significand. The rounding below
  covers the normal and subnormal range; a magnitude of \<open>2 ^ 1024\<close> or more
  (where Python yields infinity or \<^verbatim>\<open>OverflowError\<close>) is outside its domain and
  does not arise here, since the quotients formed are at most 6553.5.
\<close>

definition round_half_even :: "rat \<Rightarrow> int" where
  "round_half_even x =
     (let n = \<lfloor>x\<rfloor>; r = x - of_int n
      in if r < 1 / 2 then n
         else if 1 / 2 < r then n + 1
         else if even n then n else n + 1)"

text \<open>The binary exponent \<open>\<lfloor>log\<^sub>2 x\<rfloor>\<close> of a positive rational.\<close>

definition ilog2 :: "rat \<Rightarrow> int" where
  "ilog2 x = (if 1 \<le> x then bitlen \<lfloor>x\<rfloor> - 1 else - bitlen (\<lceil>1 / x\<rceil> - 1))"

text \<open>\<open>x * 2\<^sup>e\<close> for an integer exponent of either sign.\<close>

definition scale2 :: "rat \<Rightarrow> int \<Rightarrow> rat" where
  "scale2 x e = (if 0 \<le> e then x * 2 ^ nat e else x / 2 ^ nat (- e))"

text \<open>
  Rounding to binary64: the significand has 53 bits, so the unit in the last
  place is \<open>2\<^sup>e\<close> with \<open>e = \<lfloor>log\<^sub>2 |x|\<rfloor> - 52\<close>, and never below \<open>2\<^sup>-\<^sup>1\<^sup>0\<^sup>7\<^sup>4\<close>.
\<close>

definition to_double :: "rat \<Rightarrow> rat" where
  "to_double x =
     (if x = 0 then 0
      else
        let e = max (ilog2 \<bar>x\<bar> - 52) (- 1074);
            m = round_half_even (scale2 \<bar>x\<bar> (- e))
        in sgn x * scale2 (of_int m) e)"

text \<open>
  \<^verbatim>\<open>a / b\<close> for an \<^verbatim>\<open>int\<close> \<open>a\<close> and a nonzero \<^verbatim>\<open>float\<close> \<open>b\<close>: the integer is
  converted to a float and the quotient is rounded. (The source divides by
  the literal \<^verbatim>\<open>10.0\<close> only, so \<^verbatim>\<open>ZeroDivisionError\<close> is not a branch.)
\<close>

definition py_truediv :: "int \<Rightarrow> rat \<Rightarrow> rat" where
  "py_truediv a b = to_double (to_double (of_int a) / b)"

section \<open>Logging\<close>

text \<open>
  Both modules configure the root logger with \<^verbatim>\<open>level=logging.INFO\<close>; a record
  below that level is dropped. The log is the list of records emitted so far.
\<close>

datatype level = DEBUG | INFO | WARNING | ERROR

fun levelno :: "level \<Rightarrow> nat" where
  "levelno DEBUG = 10"
| "levelno INFO = 20"
| "levelno WARNING = 30"
| "levelno ERROR = 40"

section \<open>The serial connection and the reader object\<close>

text \<open>
  \<^verbatim>\<open>serial.Serial\<close> is a library class. Its object is modelled by the flag
  \<^verbatim>\<open>is_open\<close> and the state \<open>dev\<close> of the device behind it, of an arbitrary
  type \<open>'c\<close>. Its method \<^verbatim>\<open>read(n)\<close> is a parameter \<open>rd\<close> of the functions that
  call it: \<open>rd n d\<close> gives what the call returns or raises, and the state of the
  device afterwards. Nothing is assumed about \<open>rd\<close>; in particular it may
  return fewer (or more) than \<open>n\<close> bytes.
\<close>

datatype exn = SerialException string | KeyboardInterrupt

type_synonym 'c read_method = "nat \<Rightarrow> 'c \<Rightarrow> (exn + byte list) \<times> 'c"

record 'c Serial =
  is_open :: bool
  dev :: 'c

text \<open>
  The attributes of a \<^verbatim>\<open>PSM5000Reader\<close>, together with the records that the
  module's logger has emitted.
\<close>

record 'c PSM5000Reader =
  port :: string
  timeout :: rat
  serial_conn :: "'c Serial option"
  log_records :: "(level \<times> string) list"

record PMData =
  pm1_0 :: rat
  pm2_5 :: rat
  pm10 :: rat
  timestamp :: rat

definition logger :: "level \<Rightarrow> string \<Rightarrow> 'c PSM5000Reader \<Rightarrow> 'c PSM5000Reader" where
  "logger lvl msg s =
     (if levelno INFO \<le> levelno lvl
      then s\<lparr>log_records := log_records s @ [(lvl, msg)]\<rparr>
      else s)"

text \<open>The state of the reader once a \<^verbatim>\<open>read\<close> has left the device in state \<open>d\<close>.\<close>

definition after_read :: "'c \<Rightarrow> 'c PSM5000Reader \<Rightarrow> 'c PSM5000Reader" where
  "after_read d s = s\<lparr>serial_conn := map_option (\<lambda>c. c\<lparr>dev := d\<rparr>) (serial_conn s)\<rparr>"

section \<open>\<^verbatim>\<open>disconnect\<close> (the same text in data.py and main.py)\<close>

text \<open>\<^verbatim>\<open>close()\<close> clears the flag of the connection object; the attribute keeps the object.\<close>

definition disconnect :: "'c PSM5000Reader \<Rightarrow> 'c PSM5000Reader" where
  "disconnect s =
     (case serial_conn s of
        None \<Rightarrow> s
      | Some c \<Rightarrow>
          if is_open c
          then logger INFO ''Disconnected from PSM5000''
                 (s\<lparr>serial_conn := Some (c\<lparr>is_open := False\<rparr>)\<rparr>)
          else s)"

section \<open>\<^verbatim>\<open>read_raw_data\<close>\<close>

text \<open>
  The handler \<^verbatim>\<open>except serial.SerialException as e\<close>: it logs the message after
  the given prefix and makes the function return \<^verbatim>\<open>None\<close>; any other exception
  leaves the function.
\<close>

definition except_SerialException ::
  "string \<Rightarrow> exn \<Rightarrow> 'c PSM5000Reader \<Rightarrow> (exn + byte list option) \<times> 'c PSM5000Reader" where
  "except_SerialException prefix e s =
     (case e of
        SerialException msg \<Rightarrow> (Inr None, logger ERROR (prefix @ msg) s)
      | KeyboardInterrupt \<Rightarrow> (Inl e, s))"

text \<open>The version of data.py.\<close>

definition read_raw_data ::
  "'c read_method \<Rightarrow> 'c PSM5000Reader \<Rightarrow> (exn + byte list option) \<times> 'c PSM5000Reader" where
  "read_raw_data rd s =
     (case serial_conn s of
        None \<Rightarrow> (Inr None, logger ERROR ''Serial connection not established'' s)
      | Some c \<Rightarrow>
          if \<not> is_open c
          then (Inr None, logger ERROR ''Serial connection not established'' s)
          else
            (case rd 2 (dev c) of
               (Inl e, d1) \<Rightarrow>
                 except_SerialException ''Serial communication error: '' e (after_read d1 s)
             | (Inr header, d1) \<Rightarrow>
                 if length header \<noteq> 2 \<or> header \<noteq> HEADER
                 then (Inr None,
                       logger DEBUG ''Invalid or incomplete header received'' (after_read d1 s))
                 else
                   (case rd (FRAME_LENGTH - 2) d1 of
                      (Inl e, d2) \<Rightarrow>
                        except_SerialException ''Serial communication error: '' e
                          (after_read d2 s)
                    | (Inr remaining_bytes, d2) \<Rightarrow>
                        if length remaining_bytes \<noteq> FRAME_LENGTH - 2
                        then (Inr None,
                              logger DEBUG ''Incomplete frame received'' (after_read d2 s))
                        else
                          let full_frame = header @ remaining_bytes
                          in if \<not> validate_checksum full_frame
                             then (Inr None,
                                   logger WARNING ''Checksum validation failed''
                                     (after_read d2 s))
                             else (Inr (Some full_frame), after_read d2 s))))"

text \<open>
  The version of main.py: other messages, and no record when the checksum fails.
\<close>

definition read_raw_data_main ::
  "'c read_method \<Rightarrow> 'c PSM5000Reader \<Rightarrow> (exn + byte list option) \<times> 'c PSM5000Reader" where
  "read_raw_data_main rd s =
     (case serial_conn s of
        None \<Rightarrow> (Inr None, logger ERROR ''Serial connection not established'' s)
      | Some c \<Rightarrow>
          if \<not> is_open c
          then (Inr None, logger ERROR ''Serial connection not established'' s)
          else
            (case rd 2 (dev c) of
               (Inl e, d1) \<Rightarrow> except_SerialException ''Serial error: '' e (after_read d1 s)
             | (Inr header, d1) \<Rightarrow>
                 if length header \<noteq> 2 \<or> header \<noteq> HEADER
                 then (Inr None, logger DEBUG ''Invalid header received'' (after_read d1 s))
                 else
                   (case rd (FRAME_LENGTH - 2) d1 of
                      (Inl e, d2) \<Rightarrow>
                        except_SerialException ''Serial error: '' e (after_read d2 s)
                    | (Inr remaining, d2) \<Rightarrow>
                        if length remaining \<noteq> FRAME_LENGTH - 2
                        then (Inr None,
                              logger DEBUG ''Incomplete frame received'' (after_read d2 s))
                        else
                          let frame = header @ remaining
                          in (Inr (if validate_checksum frame then Some frame else None),
                              after_read d2 s))))"

section \<open>\<^verbatim>\<open>parse_data\<close> (the same computation in data.py and main.py)\<close>

text \<open>
  The argument \<open>now\<close> is the value of \<^verbatim>\<open>time.time()\<close>. The body of the \<^verbatim>\<open>try\<close>
  block slices, converts and divides by a nonzero literal; none of these can
  raise on a bytes object, so the \<^verbatim>\<open>except\<close> branch has no counterpart.
\<close>

definition parse_data :: "rat \<Rightarrow> byte list \<Rightarrow> PMData option" where
  "parse_data now raw_data =
     (if raw_data = [] \<or> length raw_data \<noteq> FRAME_LENGTH then None
      else
        let v1 = py_truediv (from_bytes_big (slice raw_data 4 6)) 10;
            v2 = py_truediv (from_bytes_big (slice raw_data 6 8)) 10;
            v3 = py_truediv (from_bytes_big (slice raw_data 8 10)) 10
        in Some \<lparr>pm1_0 = v1, pm2_5 = v2, pm10 = v3, timestamp = now\<rparr>)"

section \<open>\<^verbatim>\<open>read_pm_data\<close>\<close>

text \<open>
  \<^verbatim>\<open>if raw_data:\<close> holds for a bytes object that is not empty. The two modules
  differ only in the \<^verbatim>\<open>read_raw_data\<close> they call.
\<close>

definition parse_if_truthy :: "rat \<Rightarrow> byte list option \<Rightarrow> PMData option" where
  "parse_if_truthy now raw_data =
     (case raw_data of
        None \<Rightarrow> None
      | Some bs \<Rightarrow> if bs \<noteq> [] then parse_data now bs else None)"

definition read_pm_data ::
  "'c read_method \<Rightarrow> rat \<Rightarrow> 'c PSM5000Reader \<Rightarrow> (exn + PMData option) \<times> 'c PSM5000Reader" where
  "read_pm_data rd now s =
     (case read_raw_data rd s of
        (Inl e, s') \<Rightarrow> (Inl e, s')
      | (Inr raw_data, s') \<Rightarrow> (Inr (parse_if_truthy now raw_data), s'))"

definition read_pm_data_main ::
  "'c read_method \<Rightarrow> rat \<Rightarrow> 'c PSM5000Reader \<Rightarrow> (exn + PMData option) \<times> 'c PSM5000Reader" where
  "read_pm_data_main rd now s =
     (case read_raw_data_main rd s of
        (Inl e, s') \<Rightarrow> (Inl e, s')
      | (Inr raw, s') \<Rightarrow> (Inr (parse_if_truthy now raw), s'))"

section \<open>Session states and sample objects\<close>

text \<open>
  The condition \<^verbatim>\<open>self.serial_conn and self.serial_conn.is_open\<close>: the session
  is connected when it holds a connection object whose port is open.
\<close>

definition connected :: "'c PSM5000Reader \<Rightarrow> bool" where
  "connected s = (case serial_conn s of None \<Rightarrow> False | Some c \<Rightarrow> is_open c)"

text \<open>
  A device for running the model on concrete input: it holds the bytes that
  arrive before the timeout and the sizes of the reads requested so far, and
  a read returns what is there, up to the size asked for.
\<close>

definition replay_read :: "(byte list \<times> nat list) read_method" where
  "replay_read n d = (Inr (take n (fst d)), (drop n (fst d), snd d @ [n]))"

definition reader_on :: "byte list \<Rightarrow> (byte list \<times> nat list) PSM5000Reader" where
  "reader_on buf =
     \<lparr>port = ''/dev/ttyS0'', timeout = 1,
      serial_conn = Some \<lparr>is_open = True, dev = (buf, [])\<rparr>, log_records = []\<rparr>"

definition fresh_reader :: "(byte list \<times> nat list) PSM5000Reader" where
  "fresh_reader = \<lparr>port = ''/dev/ttyS0'', timeout = 1, serial_conn = None, log_records = []\<rparr>"

text \<open>
  A frame with the raw values 10, 25 and 40 and the checksum \<open>0x00F6\<close> of its
  first thirty bytes; the same frame with the last byte flipped; and thirty-two
  bytes \<open>0xFF\<close>, which have neither the header nor a valid checksum.
\<close>

definition sample_frame :: "byte list" where
  "sample_frame =
     [0x42, 0x4D, 0x00, 0x1C, 0x00, 0x0A, 0x00, 0x19, 0x00, 0x28]
       @ replicate 20 0x00 @ [0x00, 0xF6]"

definition corrupt_frame :: "byte list" where
  "corrupt_frame =
     [0x42, 0x4D, 0x00, 0x1C, 0x00, 0x0A, 0x00, 0x19, 0x00, 0x28]
       @ replicate 20 0x00 @ [0x00, 0x09]"

definition noise_frame :: "byte list" where
  "noise_frame = replicate 32 0xFF"

section \<open>Building a frame\<close>

text \<open>
  The source only decodes. For the round trip, a frame is laid out as the
  specification describes a \<^verbatim>\<open>RawFrame\<close>: the magic header, two bytes of declared
  length, the three raw values as big-endian unsigned 16-bit integers at
  offsets 4, 6 and 8, twenty further bytes, and the sum of these thirty bytes
  as a big-endian 16-bit checksum. \<open>to_bytes_big2 v\<close> is Python's
  \<^verbatim>\<open>v.to_bytes(2, byteorder='big')\<close> for \<open>0 \<le> v < 65536\<close>.
\<close>

definition to_bytes_big2 :: "int \<Rightarrow> byte list" where
  "to_bytes_big2 v = [word_of_int (v div 256), word_of_int (v mod 256)]"

definition frame_body :: "byte list \<Rightarrow> int \<Rightarrow> int \<Rightarrow> int \<Rightarrow> byte list \<Rightarrow> byte list" where
  "frame_body len_field v1 v2 v3 extra =
     HEADER @ len_field @ to_bytes_big2 v1 @ to_bytes_big2 v2 @ to_bytes_big2 v3 @ extra"

definition build_frame :: "byte list \<Rightarrow> int \<Rightarrow> int \<Rightarrow> int \<Rightarrow> byte list \<Rightarrow> byte list" where
  "build_frame len_field v1 v2 v3 extra =
     frame_body len_field v1 v2 v3 extra
       @ to_bytes_big2 (py_sum (frame_body len_field v1 v2 v3 extra))"

section \<open>Facts about the byte operations\<close>

lemma py_sum_nonneg: "0 \<le> py_sum bs"
  unfolding py_sum_def by (induction bs) simp_all

lemma uint_byte_le: "uint (b :: byte) \<le> 255"
  using uint_bounded [of b] by simp

lemma py_sum_le: "py_sum bs \<le> 255 * int (length bs)"
  unfolding py_sum_def
proof (induction bs)
  case Nil
  show ?case by simp
next
  case (Cons b bs)
  have "uint b \<le> 255" by (rule uint_byte_le)
  with Cons show ?case by simp
qed

lemma from_bytes_big_pair: "from_bytes_big [hi, lo] = uint hi * 256 + uint lo"
  by (simp add: from_bytes_big_def)

lemma last2_of_32:
  assumes "length bs = 32"
  shows "last2 bs = [bs ! 30, bs ! 31]"
proof -
  have "bs ! 30 # drop (Suc 30) bs = drop 30 bs"
    using assms by (intro Cons_nth_drop_Suc) simp
  moreover have "bs ! 31 # drop (Suc 31) bs = drop 31 bs"
    using assms by (intro Cons_nth_drop_Suc) simp
  ultimately show ?thesis
    using assms by (simp add: last2_def)
qed

lemma all_but_last2_of_32: "length bs = 32 \<Longrightarrow> all_but_last2 bs = take 30 bs"
  by (simp add: all_but_last2_def)

lemma checksum_sum_small:
  assumes "length bs = 32"
  shows "py_sum (take 30 bs) mod 65536 = py_sum (take 30 bs)"
proof -
  have "py_sum (take 30 bs) \<le> 255 * int (length (take 30 bs))"
    by (rule py_sum_le)
  also have "\<dots> = 7650" using assms by simp
  finally have "py_sum (take 30 bs) < 65536" by simp
  with py_sum_nonneg [of "take 30 bs"] show ?thesis by simp
qed

lemma take2_drop:
  assumes "Suc i < length bs"
  shows "take 2 (drop i bs) = [bs ! i, bs ! Suc i]"
proof -
  from assms have "bs ! i # drop (Suc i) bs = drop i bs"
    by (intro Cons_nth_drop_Suc) simp
  moreover from assms have "bs ! Suc i # drop (Suc (Suc i)) bs = drop (Suc i) bs"
    by (intro Cons_nth_drop_Suc)
  ultimately have "drop i bs = bs ! i # bs ! Suc i # drop (Suc (Suc i)) bs"
    by simp
  then show ?thesis by simp
qed

lemma slice_pairs:
  assumes "length bs = 32"
  shows "slice bs 4 6 = [bs ! 4, bs ! 5]"
    and "slice bs 6 8 = [bs ! 6, bs ! 7]"
    and "slice bs 8 10 = [bs ! 8, bs ! 9]"
  using assms take2_drop [of 4 bs] take2_drop [of 6 bs] take2_drop [of 8 bs]
  by (simp_all add: slice_def eval_nat_numeral)


section \<open>Facts about the rounding of floats\<close>

lemma round_half_even_of_int: "round_half_even (of_int n) = n"
  by (simp add: round_half_even_def)

text \<open>The rounding picks an integer nearest to its argument.\<close>

lemma round_half_even_nearest: "\<bar>of_int (round_half_even x) - x\<bar> \<le> 1 / 2"
proof -
  have "of_int \<lfloor>x\<rfloor> \<le> x" "x < of_int \<lfloor>x\<rfloor> + 1" by linarith+
  then show ?thesis by (auto simp: round_half_even_def Let_def)
qed

lemma round_half_even_nonneg: "0 \<le> x \<Longrightarrow> 0 \<le> round_half_even x"
  by (auto simp: round_half_even_def Let_def)

lemma round_half_even_le:
  assumes "x \<le> of_int n"
  shows "round_half_even x \<le> n"
proof (cases "\<lfloor>x\<rfloor> = n")
  case True
  have "of_int \<lfloor>x\<rfloor> \<le> x" by simp
  with assms True have "x = of_int n" by simp
  then show ?thesis by (simp add: round_half_even_of_int)
next
  case False
  from assms have "\<lfloor>x\<rfloor> \<le> n" by (simp add: floor_le_iff)
  with False have "\<lfloor>x\<rfloor> + 1 \<le> n" by simp
  then show ?thesis by (auto simp: round_half_even_def Let_def)
qed

lemma scale2_nonneg: "0 \<le> x \<Longrightarrow> 0 \<le> scale2 x e"
  by (simp add: scale2_def)

lemma scale2_mono: "x \<le> y \<Longrightarrow> scale2 x e \<le> scale2 y e"
  by (simp add: scale2_def divide_right_mono)

lemma scale2_inverse: "scale2 (scale2 x (- e)) e = x"
  by (simp add: scale2_def)

lemma ilog2_less:
  assumes "0 < x" and "x < 2 ^ k"
  shows "ilog2 x < int k"
proof (cases "1 \<le> x")
  case True
  have "of_int \<lfloor>x\<rfloor> \<le> x" by simp
  also note assms(2)
  finally have "(of_int \<lfloor>x\<rfloor> :: rat) < of_int (2 ^ k)" by simp
  then have "\<lfloor>x\<rfloor> < 2 ^ k" unfolding of_int_less_iff .
  then have "bitlen \<lfloor>x\<rfloor> \<le> int k" by (simp add: bitlen_le_iff_power)
  with True show ?thesis by (simp add: ilog2_def)
next
  case False
  have "0 \<le> bitlen (\<lceil>1 / x\<rceil> - 1)" by (rule bitlen_nonneg)
  with False have "ilog2 x \<le> 0" by (simp add: ilog2_def)
  moreover have "k \<noteq> 0 \<or> ilog2 x < 0"
  proof (cases "k = 0")
    case True
    with assms have "x < 1" by simp
    then have "1 < 1 / x" using assms(1) by (simp add: field_simps)
    then have "1 < \<lceil>1 / x\<rceil>" by (simp add: less_ceiling_iff)
    then have "0 < \<lceil>1 / x\<rceil> - 1" by simp
    then have "bitlen (\<lceil>1 / x\<rceil> - 1) \<noteq> 0" by (simp add: bitlen_eq_zero_iff)
    with bitlen_nonneg [of "\<lceil>1 / x\<rceil> - 1"] have "0 < bitlen (\<lceil>1 / x\<rceil> - 1)" by simp
    with \<open>\<not> 1 \<le> x\<close> show ?thesis by (simp add: ilog2_def)
  qed simp
  ultimately show ?thesis by auto
qed

text \<open>The exponent computed is the binade of the argument.\<close>

lemma ilog2_bounds:
  assumes "0 < x"
  shows "scale2 1 (ilog2 x) \<le> x" and "x < scale2 1 (ilog2 x + 1)"
proof -
  show "scale2 1 (ilog2 x) \<le> x"
  proof (cases "1 \<le> x")
    case True
    then have pos: "0 < \<lfloor>x\<rfloor>" by simp
    then have b: "1 \<le> bitlen \<lfloor>x\<rfloor>"
      using bitlen_eq_zero_iff [of "\<lfloor>x\<rfloor>"] bitlen_nonneg [of "\<lfloor>x\<rfloor>"] by linarith
    from bitlen_bounds [OF pos] have "2 ^ nat (bitlen \<lfloor>x\<rfloor> - 1) \<le> \<lfloor>x\<rfloor>" ..
    then have "(of_int (2 ^ nat (bitlen \<lfloor>x\<rfloor> - 1)) :: rat) \<le> of_int \<lfloor>x\<rfloor>"
      unfolding of_int_le_iff .
    also have "\<dots> \<le> x" by simp
    finally show ?thesis using True b by (simp add: ilog2_def scale2_def)
  next
    case False
    define m where "m = \<lceil>1 / x\<rceil> - 1"
    from False assms have "1 < 1 / x" by (simp add: field_simps)
    then have pos: "0 < m" by (simp add: m_def less_ceiling_iff)
    from bitlen_bounds [OF pos] have "m < 2 ^ nat (bitlen m)" ..
    then have "\<lceil>1 / x\<rceil> \<le> 2 ^ nat (bitlen m)" by (simp add: m_def)
    then have c2: "(of_int \<lceil>1 / x\<rceil> :: rat) \<le> of_int (2 ^ nat (bitlen m))"
      unfolding of_int_le_iff .
    have c1: "1 / x \<le> of_int \<lceil>1 / x\<rceil>" by (rule le_of_int_ceiling)
    from order_trans [OF c1 c2] have "1 / x \<le> 2 ^ nat (bitlen m)" by simp
    then have "1 / 2 ^ nat (bitlen m) \<le> x"
      using assms by (simp add: field_simps)
    moreover have "0 \<le> bitlen m" by (rule bitlen_nonneg)
    ultimately show ?thesis
      using False by (auto simp: ilog2_def scale2_def m_def)
  qed
  show "x < scale2 1 (ilog2 x + 1)"
  proof (cases "1 \<le> x")
    case True
    then have pos: "0 < \<lfloor>x\<rfloor>" by simp
    then have b: "1 \<le> bitlen \<lfloor>x\<rfloor>"
      using bitlen_eq_zero_iff [of "\<lfloor>x\<rfloor>"] bitlen_nonneg [of "\<lfloor>x\<rfloor>"] by linarith
    from bitlen_bounds [OF pos] have "\<lfloor>x\<rfloor> < 2 ^ nat (bitlen \<lfloor>x\<rfloor>)" ..
    then have "\<lfloor>x\<rfloor> + 1 \<le> 2 ^ nat (bitlen \<lfloor>x\<rfloor>)" by simp
    then have c2: "(of_int (\<lfloor>x\<rfloor> + 1) :: rat) \<le> of_int (2 ^ nat (bitlen \<lfloor>x\<rfloor>))"
      unfolding of_int_le_iff .
    have c1: "x < of_int (\<lfloor>x\<rfloor> + 1)" by linarith
    from order_less_le_trans [OF c1 c2] have "x < 2 ^ nat (bitlen \<lfloor>x\<rfloor>)" by simp
    then show ?thesis using True b by (simp add: ilog2_def scale2_def)
  next
    case False
    define m where "m = \<lceil>1 / x\<rceil> - 1"
    from False assms have "1 < 1 / x" by (simp add: field_simps)
    then have pos: "0 < m" by (simp add: m_def less_ceiling_iff)
    then have b: "1 \<le> bitlen m"
      using bitlen_eq_zero_iff [of m] bitlen_nonneg [of m] by linarith
    from bitlen_bounds [OF pos] have "2 ^ nat (bitlen m - 1) \<le> m" ..
    then have c1: "(of_int (2 ^ nat (bitlen m - 1)) :: rat) \<le> of_int m"
      unfolding of_int_le_iff .
    have c2: "of_int m < 1 / x" unfolding m_def by linarith
    from order_le_less_trans [OF c1 c2] have "2 ^ nat (bitlen m - 1) < 1 / x" by simp
    then have lt: "x < 1 / 2 ^ nat (bitlen m - 1)"
      using assms by (simp add: field_simps)
    have "nat (bitlen m - 1) = nat (- (1 - bitlen m))" by simp
    with lt b show ?thesis
      using False by (auto simp: ilog2_def scale2_def m_def)
  qed
qed

lemma to_double_nonneg: "0 \<le> x \<Longrightarrow> 0 \<le> to_double x"
  by (simp add: to_double_def Let_def scale2_nonneg round_half_even_nonneg)

lemma to_double_le_half_int:
  assumes "0 < x" and "x \<le> of_int n / 2" and "x < 2 ^ 52"
  shows "to_double x \<le> of_int n / 2"
proof -
  define e where "e = max (ilog2 \<bar>x\<bar> - 52) (- 1074)"
  from assms have "ilog2 x < 52" using ilog2_less [of x 52] by simp
  with assms(1) have e: "e < 0" by (simp add: e_def)
  have grid: "scale2 (of_int n / 2) (- e) = of_int (n * 2 ^ (nat (- e) - 1))"
  proof -
    from e have "nat (- e) = Suc (nat (- e) - 1)" by simp
    then have "(2::rat) ^ nat (- e) = 2 * 2 ^ (nat (- e) - 1)"
      by (metis power_Suc)
    with e show ?thesis by (simp add: scale2_def)
  qed
  have "scale2 x (- e) \<le> scale2 (of_int n / 2) (- e)"
    using assms(2) by (rule scale2_mono)
  then have "scale2 x (- e) \<le> of_int (n * 2 ^ (nat (- e) - 1))"
    by (simp only: grid)
  then have "round_half_even (scale2 x (- e)) \<le> n * 2 ^ (nat (- e) - 1)"
    by (rule round_half_even_le)
  then have "(of_int (round_half_even (scale2 x (- e))) :: rat) \<le> of_int (n * 2 ^ (nat (- e) - 1))"
    unfolding of_int_le_iff .
  then have "scale2 (of_int (round_half_even (scale2 x (- e)))) e
      \<le> scale2 (of_int (n * 2 ^ (nat (- e) - 1))) e"
    by (rule scale2_mono)
  also have "\<dots> = scale2 (scale2 (of_int n / 2) (- e)) e"
    by (simp only: grid)
  also have "\<dots> = of_int n / 2"
    by (rule scale2_inverse)
  finally show ?thesis
    using assms(1) by (simp add: to_double_def Let_def e_def)
qed

lemma to_double_of_int_exact:
  assumes "0 \<le> v" and "v < 2 ^ 53"
  shows "to_double (of_int v) = of_int v"
proof (cases "v = 0")
  case True
  then show ?thesis by (simp add: to_double_def)
next
  case False
  with assms have pos: "0 < (of_int v :: rat)" by simp
  define e where "e = max (ilog2 \<bar>of_int v\<bar> - 52) (- 1074)"
  have "(of_int v :: rat) < 2 ^ 53" using assms(2) by (metis of_int_less_numeral_power_cancel_iff)
  with pos have "ilog2 (of_int v) < 53" using ilog2_less [of "of_int v" 53] by simp
  with pos have e: "e \<le> 0" by (simp add: e_def)
  then have "scale2 (of_int v) (- e) = of_int (v * 2 ^ nat (- e))"
    by (simp add: scale2_def)
  then have "round_half_even (scale2 (of_int v) (- e)) = v * 2 ^ nat (- e)"
    by (simp only: round_half_even_of_int)
  then have "scale2 (of_int (round_half_even (scale2 (of_int v) (- e)))) e = of_int v"
    using e by (simp add: scale2_def)
  with pos show ?thesis
    by (simp add: to_double_def Let_def e_def)
qed

lemma py_truediv_10_bounds:
  assumes "0 \<le> v" and "v \<le> 65535"
  shows "0 \<le> py_truediv v 10" and "py_truediv v 10 \<le> 13107 / 2"
proof -
  from assms have exact: "to_double (of_int v) = of_int v"
    by (intro to_double_of_int_exact) simp_all
  from assms(1) show "0 \<le> py_truediv v 10"
    by (simp add: py_truediv_def exact to_double_nonneg)
  show "py_truediv v 10 \<le> 13107 / 2"
  proof (cases "v = 0")
    case True
    then show ?thesis by (simp add: py_truediv_def to_double_def)
  next
    case False
    with assms have "0 < (of_int v :: rat) / 10" by simp
    moreover from assms(2) have "(of_int v :: rat) / 10 \<le> of_int 13107 / 2" by simp
    moreover from assms(2) have "(of_int v :: rat) / 10 < 2 ^ 52" by simp
    ultimately have "to_double (of_int v / 10) \<le> of_int 13107 / 2"
      by (rule to_double_le_half_int)
    then show ?thesis by (simp add: py_truediv_def exact)
  qed
qed

section \<open>The checksum validator\<close>

text \<open>
  Claim C2. For every byte sequence \<open>b\<close>, the validator returns true exactly when
  \<open>b\<close> has length 32 and the sum of the bytes \<open>b[0..29]\<close>, reduced modulo 65536,
  equals the big-endian 16-bit unsigned integer formed by \<open>b[30]\<close> and \<open>b[31]\<close>.
  The source compares the unreduced sum; the two agree because thirty bytes sum
  to at most 7650. Any other length is rejected at once.
\<close>

theorem validate_checksum_iff:
  "validate_checksum b =
     (length b = 32 \<and>
      py_sum (take 30 b) mod 65536 = uint (b ! 30) * 256 + uint (b ! 31))"
proof (cases "length b = 32")
  case True
  then show ?thesis
    by (simp add: validate_checksum_def FRAME_LENGTH_def all_but_last2_of_32
        last2_of_32 from_bytes_big_pair checksum_sum_small)
next
  case False
  then show ?thesis
    by (simp add: validate_checksum_def FRAME_LENGTH_def)
qed

section \<open>Facts about decoding\<close>

lemma parse_data_32:
  assumes "length raw = 32"
  shows "parse_data now raw =
     Some \<lparr>pm1_0 = py_truediv (uint (raw ! 4) * 256 + uint (raw ! 5)) 10,
           pm2_5 = py_truediv (uint (raw ! 6) * 256 + uint (raw ! 7)) 10,
           pm10 = py_truediv (uint (raw ! 8) * 256 + uint (raw ! 9)) 10,
           timestamp = now\<rparr>"
proof -
  from assms have "raw \<noteq> []" by auto
  with assms show ?thesis
    by (simp add: parse_data_def FRAME_LENGTH_def slice_pairs from_bytes_big_pair)
qed

lemma parse_data_SomeD: "parse_data now raw = Some m \<Longrightarrow> length raw = 32"
  by (simp add: parse_data_def FRAME_LENGTH_def split: if_splits)

lemma uint16_pair_bounds:
  "0 \<le> uint (hi :: byte) * 256 + uint (lo :: byte)"
  "uint hi * 256 + uint lo \<le> 65535"
  using uint_byte_le [of hi] uint_byte_le [of lo] by simp_all

lemma parse_data_bounds:
  assumes "parse_data now raw = Some m"
  shows "0 \<le> pm1_0 m \<and> 0 \<le> pm2_5 m \<and> 0 \<le> pm10 m"
    and "pm1_0 m \<le> 13107 / 2 \<and> pm2_5 m \<le> 13107 / 2 \<and> pm10 m \<le> 13107 / 2"
proof -
  from assms have len: "length raw = 32" by (rule parse_data_SomeD)
  from assms parse_data_32 [OF len, of now]
  have m: "m = \<lparr>pm1_0 = py_truediv (uint (raw ! 4) * 256 + uint (raw ! 5)) 10,
           pm2_5 = py_truediv (uint (raw ! 6) * 256 + uint (raw ! 7)) 10,
           pm10 = py_truediv (uint (raw ! 8) * 256 + uint (raw ! 9)) 10,
           timestamp = now\<rparr>" by simp
  show "0 \<le> pm1_0 m \<and> 0 \<le> pm2_5 m \<and> 0 \<le> pm10 m"
    by (simp add: m py_truediv_10_bounds uint16_pair_bounds)
  have upper: "py_truediv (uint hi * 256 + uint lo) 10 \<le> 13107 / 2" for hi lo :: byte
    by (intro py_truediv_10_bounds uint16_pair_bounds)
  show "pm1_0 m \<le> 13107 / 2 \<and> pm2_5 m \<le> 13107 / 2 \<and> pm10 m \<le> 13107 / 2"
    using upper [of "raw ! 4" "raw ! 5"] upper [of "raw ! 6" "raw ! 7"]
      upper [of "raw ! 8" "raw ! 9"]
    by (simp add: m)
qed

lemma parse_if_truthy_SomeD:
  "parse_if_truthy now r = Some m \<Longrightarrow> \<exists>raw. parse_data now raw = Some m"
  by (auto simp: parse_if_truthy_def split: option.splits if_splits)

lemma read_pm_data_SomeD:
  "read_pm_data rd now s = (Inr (Some m), s') \<Longrightarrow> \<exists>raw. parse_data now raw = Some m"
  by (auto simp: read_pm_data_def split: prod.splits sum.splits dest: parse_if_truthy_SomeD)

lemma read_pm_data_main_SomeD:
  "read_pm_data_main rd now s = (Inr (Some m), s') \<Longrightarrow> \<exists>raw. parse_data now raw = Some m"
  by (auto simp: read_pm_data_main_def split: prod.splits sum.splits dest: parse_if_truthy_SomeD)

section \<open>The frame decoder\<close>

text \<open>
  Claim C9. \<^verbatim>\<open>parse_data\<close> checks neither the magic header nor the checksum:
  on every input of exactly 32 bytes it returns a measurement, whose three
  concentrations are computed from the bytes at offsets 4 to 9 alone and whose
  timestamp is the clock reading. Nothing is assumed about the other bytes, so
  inputs with a wrong header or a wrong checksum are decoded all the same.
\<close>

theorem parse_data_total:
  assumes "length raw = 32"
  shows "parse_data now raw =
     Some \<lparr>pm1_0 = py_truediv (uint (raw ! 4) * 256 + uint (raw ! 5)) 10,
           pm2_5 = py_truediv (uint (raw ! 6) * 256 + uint (raw ! 7)) 10,
           pm10 = py_truediv (uint (raw ! 8) * 256 + uint (raw ! 9)) 10,
           timestamp = now\<rparr>"
  using assms by (rule parse_data_32)

text \<open>
  Thirty-two bytes \<open>0xFF\<close> have no header and no valid checksum, and decode
  to three concentrations of 6553.5.
\<close>

theorem parse_data_total_witness:
  "length noise_frame = 32 \<and> take 2 noise_frame \<noteq> HEADER \<and> \<not> validate_checksum noise_frame
   \<and> parse_data 7 noise_frame =
       Some \<lparr>pm1_0 = 13107 / 2, pm2_5 = 13107 / 2, pm10 = 13107 / 2, timestamp = 7\<rparr>"
proof -
  have len: "length noise_frame = 32" by (simp add: noise_frame_def)
  have junk: "take 2 noise_frame \<noteq> HEADER \<and> \<not> validate_checksum noise_frame" by code_simp
  have val: "\<lparr>pm1_0 = py_truediv (uint (noise_frame ! 4) * 256 + uint (noise_frame ! 5)) 10,
           pm2_5 = py_truediv (uint (noise_frame ! 6) * 256 + uint (noise_frame ! 7)) 10,
           pm10 = py_truediv (uint (noise_frame ! 8) * 256 + uint (noise_frame ! 9)) 10,
           timestamp = 7\<rparr> = \<lparr>pm1_0 = 13107 / 2, pm2_5 = 13107 / 2, pm10 = 13107 / 2, timestamp = 7\<rparr>"
    by code_simp
  from parse_data_total [OF len, of 7] val len junk show ?thesis by simp
qed

text \<open>
  Claim C8. Every measurement returned by a successful read, in either
  module, has three non-negative concentrations: each is an unsigned 16-bit
  integer divided by ten.
\<close>

theorem measurement_nonneg:
  assumes "read_pm_data rd now s = (Inr (Some m), s')
         \<or> read_pm_data_main rd now s = (Inr (Some m), s')"
  shows "0 \<le> pm1_0 m \<and> 0 \<le> pm2_5 m \<and> 0 \<le> pm10 m"
proof -
  from assms obtain raw where "parse_data now raw = Some m"
    using read_pm_data_SomeD read_pm_data_main_SomeD by blast
  then show ?thesis by (rule parse_data_bounds)
qed

text \<open>The sample frame read from a device: the concentrations are 1.0, 2.5 and 4.0.\<close>

theorem measurement_nonneg_witness:
  "read_pm_data replay_read 5 (reader_on sample_frame) =
     (Inr (Some \<lparr>pm1_0 = 1, pm2_5 = 5 / 2, pm10 = 4, timestamp = 5\<rparr>),
      after_read ([], [2, 30]) (reader_on sample_frame))
   \<and> 0 \<le> pm1_0 \<lparr>pm1_0 = 1, pm2_5 = 5 / 2, pm10 = 4, timestamp = 5\<rparr>
   \<and> 0 \<le> pm2_5 \<lparr>pm1_0 = 1, pm2_5 = 5 / 2, pm10 = 4, timestamp = 5\<rparr>
   \<and> 0 \<le> pm10 \<lparr>pm1_0 = 1, pm2_5 = 5 / 2, pm10 = 4, timestamp = 5\<rparr>"
proof -
  have run: "read_pm_data replay_read 5 (reader_on sample_frame) =
     (Inr (Some \<lparr>pm1_0 = 1, pm2_5 = 5 / 2, pm10 = 4, timestamp = 5\<rparr>),
      after_read ([], [2, 30]) (reader_on sample_frame))"
    by code_simp
  from measurement_nonneg [OF disjI1, OF run] run show ?thesis by simp
qed

text \<open>
  Claim C10. Every concentration of a measurement produced by \<^verbatim>\<open>parse_data\<close>
  is at most 6553.5, the quotient of the largest 16-bit value 65535 by ten
  (a value that binary64 represents exactly).
\<close>

theorem measurement_upper_bound:
  assumes "parse_data now raw = Some m"
  shows "pm1_0 m \<le> 13107 / 2 \<and> pm2_5 m \<le> 13107 / 2 \<and> pm10 m \<le> 13107 / 2"
  using assms by (rule parse_data_bounds)

text \<open>The bound is attained on thirty-two bytes \<open>0xFF\<close>.\<close>

theorem measurement_upper_bound_witness:
  "parse_data 0 noise_frame =
     Some \<lparr>pm1_0 = 13107 / 2, pm2_5 = 13107 / 2, pm10 = 13107 / 2, timestamp = 0\<rparr>
   \<and> pm1_0 \<lparr>pm1_0 = 13107 / 2, pm2_5 = 13107 / 2, pm10 = 13107 / 2, timestamp = 0\<rparr> \<le> 13107 / 2
   \<and> pm2_5 \<lparr>pm1_0 = 13107 / 2, pm2_5 = 13107 / 2, pm10 = 13107 / 2, timestamp = 0\<rparr> \<le> 13107 / 2
   \<and> pm10 \<lparr>pm1_0 = 13107 / 2, pm2_5 = 13107 / 2, pm10 = 13107 / 2, timestamp = 0\<rparr> \<le> 13107 / 2"
proof -
  have run: "parse_data 0 noise_frame =
     Some \<lparr>pm1_0 = 13107 / 2, pm2_5 = 13107 / 2, pm10 = 13107 / 2, timestamp = 0\<rparr>"
    by code_simp
  from measurement_upper_bound [OF run] run show ?thesis by simp
qed

section \<open>Facts about reading\<close>

lemma logger_DEBUG: "logger DEBUG msg s = s"
  by (simp add: logger_def)

lemma logger_ERROR: "logger ERROR msg s = s\<lparr>log_records := log_records s @ [(ERROR, msg)]\<rparr>"
  by (simp add: logger_def)

lemma logger_WARNING: "logger WARNING msg s = s\<lparr>log_records := log_records s @ [(WARNING, msg)]\<rparr>"
  by (simp add: logger_def)

lemma logger_INFO: "logger INFO msg s = s\<lparr>log_records := log_records s @ [(INFO, msg)]\<rparr>"
  by (simp add: logger_def)

lemma length_HEADER: "length HEADER = 2"
  by (simp add: HEADER_def)

lemma read_pm_data_None:
  "read_raw_data rd s = (Inr None, s') \<Longrightarrow> read_pm_data rd now s = (Inr None, s')"
  by (simp add: read_pm_data_def parse_if_truthy_def)

lemma read_pm_data_main_None:
  "read_raw_data_main rd s = (Inr None, s') \<Longrightarrow> read_pm_data_main rd now s = (Inr None, s')"
  by (simp add: read_pm_data_main_def parse_if_truthy_def)

lemma read_raw_data_disconnected:
  assumes "\<not> connected s"
  shows "read_raw_data rd s = (Inr None, logger ERROR ''Serial connection not established'' s)"
    and "read_raw_data_main rd s = (Inr None, logger ERROR ''Serial connection not established'' s)"
  using assms
  by (simp_all add: connected_def read_raw_data_def read_raw_data_main_def split: option.splits)

lemma read_raw_data_bad_header:
  assumes "serial_conn s = Some c" and "is_open c"
    and "rd 2 (dev c) = (Inr header, d1)" and "header \<noteq> HEADER"
  shows "read_raw_data rd s = (Inr None, after_read d1 s)"
    and "read_raw_data_main rd s = (Inr None, after_read d1 s)"
  using assms by (simp_all add: read_raw_data_def read_raw_data_main_def logger_DEBUG)

lemma read_raw_data_short:
  assumes "serial_conn s = Some c" and "is_open c"
    and "rd 2 (dev c) = (Inr HEADER, d1)"
    and "rd 30 d1 = (Inr rest, d2)" and "length rest \<noteq> 30"
  shows "read_raw_data rd s = (Inr None, after_read d2 s)"
    and "read_raw_data_main rd s = (Inr None, after_read d2 s)"
  using assms
  by (simp_all add: read_raw_data_def read_raw_data_main_def logger_DEBUG length_HEADER
      FRAME_LENGTH_def)

lemma read_raw_data_bad_checksum:
  assumes "serial_conn s = Some c" and "is_open c"
    and "rd 2 (dev c) = (Inr HEADER, d1)"
    and "rd 30 d1 = (Inr rest, d2)" and "length rest = 30"
    and "\<not> validate_checksum (HEADER @ rest)"
  shows "read_raw_data rd s =
           (Inr None, logger WARNING ''Checksum validation failed'' (after_read d2 s))"
    and "read_raw_data_main rd s = (Inr None, after_read d2 s)"
  using assms
  by (simp_all add: read_raw_data_def read_raw_data_main_def length_HEADER FRAME_LENGTH_def)

lemma serial_conn_logger: "serial_conn (logger lvl msg s) = serial_conn s"
  by (simp add: logger_def)

lemma serial_conn_after_read:
  "serial_conn s = Some c \<Longrightarrow> serial_conn (after_read d s) = Some (c\<lparr>dev := d\<rparr>)"
  by (simp add: after_read_def)

lemma serial_conn_except:
  "serial_conn (snd (except_SerialException prefix e s)) = serial_conn s"
  by (cases e) (simp_all add: except_SerialException_def serial_conn_logger)

lemma read_raw_data_header_ok_device:
  assumes "serial_conn s = Some c" and "is_open c"
    and "rd 2 (dev c) = (Inr HEADER, d1)"
  shows "serial_conn (snd (read_raw_data rd s)) = Some (c\<lparr>dev := snd (rd 30 d1)\<rparr>)"
    and "serial_conn (snd (read_raw_data_main rd s)) = Some (c\<lparr>dev := snd (rd 30 d1)\<rparr>)"
proof -
  obtain r d2 where rd30: "rd 30 d1 = (r, d2)" by (cases "rd 30 d1")
  have conn: "serial_conn (after_read d2 s) = Some (c\<lparr>dev := d2\<rparr>)"
    using assms(1) by (rule serial_conn_after_read)
  show "serial_conn (snd (read_raw_data rd s)) = Some (c\<lparr>dev := snd (rd 30 d1)\<rparr>)"
    using assms rd30 conn
    by (cases r)
      (simp_all add: read_raw_data_def length_HEADER FRAME_LENGTH_def Let_def
        serial_conn_logger serial_conn_except)
  show "serial_conn (snd (read_raw_data_main rd s)) = Some (c\<lparr>dev := snd (rd 30 d1)\<rparr>)"
    using assms rd30 conn
    by (cases r)
      (simp_all add: read_raw_data_main_def length_HEADER FRAME_LENGTH_def Let_def
        serial_conn_logger serial_conn_except)
qed

text \<open>
  An exception of the first read: \<^verbatim>\<open>SerialException\<close> is caught, logged and turned
  into \<^verbatim>\<open>None\<close>; \<^verbatim>\<open>KeyboardInterrupt\<close> leaves the function.
\<close>

lemma read_raw_data_first_read_raises:
  assumes "serial_conn s = Some c" and "is_open c" and "rd 2 (dev c) = (Inl e, d1)"
  shows "read_raw_data rd s =
           (case e of
              SerialException msg \<Rightarrow>
                (Inr None, logger ERROR (''Serial communication error: '' @ msg) (after_read d1 s))
            | KeyboardInterrupt \<Rightarrow> (Inl KeyboardInterrupt, after_read d1 s))"
  using assms
  by (cases e) (simp_all add: read_raw_data_def except_SerialException_def)

section \<open>The session\<close>

text \<open>
  Claim C7. \<^verbatim>\<open>disconnect\<close> is idempotent: a second call in a row changes nothing,
  neither the reader nor the log, and no call can fail. The call leaves the
  session disconnected; it clears the flag of an open connection and is the
  identity on a session that is not connected.
\<close>

theorem disconnect_idempotent:
  "disconnect (disconnect s) = disconnect s
   \<and> \<not> connected (disconnect s)
   \<and> (connected s \<longrightarrow>
        serial_conn (disconnect s) = map_option (\<lambda>c. c\<lparr>is_open := False\<rparr>) (serial_conn s))
   \<and> (\<not> connected s \<longrightarrow> disconnect s = s)"
  by (cases "serial_conn s")
    (simp_all add: disconnect_def connected_def logger_def)

text \<open>A connected reader and a reader that never connected.\<close>

theorem disconnect_idempotent_witness:
  "connected (reader_on sample_frame) \<and> \<not> connected fresh_reader
   \<and> disconnect (disconnect (reader_on sample_frame)) = disconnect (reader_on sample_frame)
   \<and> serial_conn (disconnect (reader_on sample_frame)) =
        Some \<lparr>is_open = False, dev = (sample_frame, [])\<rparr>
   \<and> disconnect fresh_reader = fresh_reader"
proof -
  have a: "connected (reader_on sample_frame)"
    by (simp add: connected_def reader_on_def)
  have b: "\<not> connected fresh_reader"
    by (simp add: connected_def fresh_reader_def)
  have c: "map_option (\<lambda>c. c\<lparr>is_open := False\<rparr>) (serial_conn (reader_on sample_frame)) =
      Some \<lparr>is_open = False, dev = (sample_frame, [])\<rparr>"
    by (simp add: reader_on_def)
  from disconnect_idempotent [of "reader_on sample_frame"]
    disconnect_idempotent [of fresh_reader] a b c
  show ?thesis by simp
qed

text \<open>
  Claim C1, as amended. In every session that is not connected (no connection
  object, or one whose port is closed), \<^verbatim>\<open>read_pm_data\<close> of either module returns
  \<^verbatim>\<open>None\<close>, the value it returns for every failed read, and raises nothing. The
  reader is unchanged but for one \<^verbatim>\<open>ERROR\<close> record in the log: the connection
  attribute and the device are untouched, and no connection is attempted.
\<close>

theorem read_when_disconnected:
  assumes "\<not> connected s"
  shows "read_pm_data rd now s =
           (Inr None,
            s\<lparr>log_records := log_records s @ [(ERROR, ''Serial connection not established'')]\<rparr>)
       \<and> read_pm_data_main rd now s =
           (Inr None,
            s\<lparr>log_records := log_records s @ [(ERROR, ''Serial connection not established'')]\<rparr>)"
  using read_raw_data_disconnected [OF assms, of rd]
  by (simp add: read_pm_data_None read_pm_data_main_None logger_ERROR)

text \<open>
  A session closed with a whole frame pending: the frame stays in the device
  and no read is requested.
\<close>

theorem read_when_disconnected_witness:
  "\<not> connected (disconnect (reader_on sample_frame))
   \<and> read_pm_data replay_read 0 (disconnect (reader_on sample_frame)) =
       (Inr None,
        \<lparr>port = ''/dev/ttyS0'', timeout = 1,
         serial_conn = Some \<lparr>is_open = False, dev = (sample_frame, [])\<rparr>,
         log_records = [(INFO, ''Disconnected from PSM5000''),
                        (ERROR, ''Serial connection not established'')]\<rparr>)
   \<and> read_pm_data_main replay_read 0 (disconnect (reader_on sample_frame)) =
       (Inr None,
        \<lparr>port = ''/dev/ttyS0'', timeout = 1,
         serial_conn = Some \<lparr>is_open = False, dev = (sample_frame, [])\<rparr>,
         log_records = [(INFO, ''Disconnected from PSM5000''),
                        (ERROR, ''Serial connection not established'')]\<rparr>)"
proof -
  have closed: "\<not> connected (disconnect (reader_on sample_frame))"
    by (simp add: connected_def disconnect_def reader_on_def logger_def)
  have after: "(disconnect (reader_on sample_frame))
      \<lparr>log_records := log_records (disconnect (reader_on sample_frame))
         @ [(ERROR, ''Serial connection not established'')]\<rparr> =
      \<lparr>port = ''/dev/ttyS0'', timeout = 1,
       serial_conn = Some \<lparr>is_open = False, dev = (sample_frame, [])\<rparr>,
       log_records = [(INFO, ''Disconnected from PSM5000''),
                      (ERROR, ''Serial connection not established'')]\<rparr>"
    by (simp add: disconnect_def reader_on_def logger_def)
  from read_when_disconnected [where rd = replay_read and now = 0, OF closed] closed show ?thesis
    by (simp only: after simp_thms)
qed

text \<open>
  Claim C1, as stated, asks for a lifecycle error. The call on a reader that
  never connected returns normally (\<open>Inr\<close>), and with the very value that a
  connected reader returns when the header read times out after one byte.
\<close>

theorem read_when_disconnected_counterexample:
  "fst (read_pm_data replay_read 0 fresh_reader) = Inr None
   \<and> fst (read_pm_data replay_read 0 fresh_reader)
       = fst (read_pm_data replay_read 0 (reader_on [0x42]))"
  by code_simp

section \<open>Frame synchronisation\<close>

text \<open>
  Claim C4. In a connected session whose first read returns normally, there
  is one header check per call. The call requests two bytes; if fewer than two
  arrive or they differ from the magic header \<open>0x42 0x4D\<close>, it returns no frame
  and no measurement and the device is left as that single read left it, so
  nothing is scanned further. If they are the header, the device is left as
  one more read, of exactly 30 bytes, leaves it.
\<close>

theorem single_header_check:
  assumes "serial_conn s = Some c" and "is_open c"
    and "rd 2 (dev c) = (Inr header, d1)"
  shows "(length header < 2 \<or> header \<noteq> HEADER \<longrightarrow>
            read_raw_data rd s = (Inr None, after_read d1 s)
          \<and> read_pm_data rd now s = (Inr None, after_read d1 s))
       \<and> (header = HEADER \<longrightarrow>
            serial_conn (snd (read_raw_data rd s)) = Some (c\<lparr>dev := snd (rd 30 d1)\<rparr>))"
proof (intro conjI impI)
  assume "length header < 2 \<or> header \<noteq> HEADER"
  then have ne: "header \<noteq> HEADER" using length_HEADER by auto
  show raw: "read_raw_data rd s = (Inr None, after_read d1 s)"
    by (rule read_raw_data_bad_header(1) [where rd = rd and header = header, OF assms ne])
  then show "read_pm_data rd now s = (Inr None, after_read d1 s)"
    by (rule read_pm_data_None)
next
  assume "header = HEADER"
  with assms show "serial_conn (snd (read_raw_data rd s)) = Some (c\<lparr>dev := snd (rd 30 d1)\<rparr>)"
    by (intro read_raw_data_header_ok_device) simp_all
qed

text \<open>
  A stray byte before a valid frame: the call fails after the one read of two
  bytes, although the header follows at the next offset. The frame alone: the
  reads requested are of 2 and of 30 bytes.
\<close>

theorem single_header_check_witness:
  "read_raw_data replay_read (reader_on (0x00 # sample_frame)) =
     (Inr None, after_read (drop 1 sample_frame, [2]) (reader_on (0x00 # sample_frame)))
   \<and> read_pm_data replay_read 0 (reader_on (0x00 # sample_frame)) =
     (Inr None, after_read (drop 1 sample_frame, [2]) (reader_on (0x00 # sample_frame)))
   \<and> serial_conn (snd (read_raw_data replay_read (reader_on sample_frame))) =
     Some \<lparr>is_open = True, dev = ([], [2, 30])\<rparr>"
proof -
  have conn: "serial_conn (reader_on buf) = Some \<lparr>is_open = True, dev = (buf, [])\<rparr>" for buf
    by (simp add: reader_on_def)
  have opened: "is_open \<lparr>is_open = True, dev = (buf, [] :: nat list)\<rparr>" for buf :: "byte list"
    by simp
  have first: "replay_read 2 (dev \<lparr>is_open = True, dev = (0x00 # sample_frame, [])\<rparr>) =
      (Inr [0x00, 0x42], (drop 1 sample_frame, [2]))"
    by code_simp
  have mismatch: "length [0x00, 0x42 :: byte] < 2 \<or> [0x00, 0x42] \<noteq> HEADER"
    by (simp add: HEADER_def)
  have second: "replay_read 2 (dev \<lparr>is_open = True, dev = (sample_frame, [])\<rparr>) =
      (Inr HEADER, (drop 2 sample_frame, [2]))"
    by code_simp
  have rest: "\<lparr>is_open = True, dev = (sample_frame, [])\<rparr>
      \<lparr>dev := snd (replay_read 30 (drop 2 sample_frame, [2]))\<rparr> =
      \<lparr>is_open = True, dev = ([], [2, 30])\<rparr>"
    by code_simp
  from single_header_check [where rd = replay_read and now = 0, OF conn opened first] mismatch
  have "read_raw_data replay_read (reader_on (0x00 # sample_frame)) =
     (Inr None, after_read (drop 1 sample_frame, [2]) (reader_on (0x00 # sample_frame)))
   \<and> read_pm_data replay_read 0 (reader_on (0x00 # sample_frame)) =
     (Inr None, after_read (drop 1 sample_frame, [2]) (reader_on (0x00 # sample_frame)))"
    by blast
  moreover from single_header_check [where rd = replay_read and now = 0, OF conn opened second]
  have "serial_conn (snd (read_raw_data replay_read (reader_on sample_frame))) =
     Some \<lparr>is_open = True, dev = ([], [2, 30])\<rparr>"
    by (simp only: rest simp_thms)
  ultimately show ?thesis by blast
qed

text \<open>
  Claim C5, as amended. When the header is right and the second read returns
  fewer than 30 bytes, the attempt fails in both modules: it returns \<^verbatim>\<open>None\<close>,
  hence no frame and no partial measurement, and raises nothing. The result
  carries no tag that would mark it as a synchronisation failure. The reader
  afterwards is the reader before with the device as the two reads left it;
  the partial bytes are consumed and kept nowhere, so the next call starts
  from a fresh header read.
\<close>

theorem short_frame_fails:
  assumes "serial_conn s = Some c" and "is_open c"
    and "rd 2 (dev c) = (Inr HEADER, d1)"
    and "rd 30 d1 = (Inr rest, d2)" and "length rest < 30"
  shows "read_raw_data rd s = (Inr None, after_read d2 s)
       \<and> read_pm_data rd now s = (Inr None, after_read d2 s)
       \<and> read_raw_data_main rd s = (Inr None, after_read d2 s)
       \<and> read_pm_data_main rd now s = (Inr None, after_read d2 s)"
proof -
  from assms(5) have ne: "length rest \<noteq> 30" by simp
  have a: "read_raw_data rd s = (Inr None, after_read d2 s)"
    by (rule read_raw_data_short(1) [where rd = rd and rest = rest, OF assms(1-4) ne])
  have b: "read_raw_data_main rd s = (Inr None, after_read d2 s)"
    by (rule read_raw_data_short(2) [where rd = rd and rest = rest, OF assms(1-4) ne])
  from a b read_pm_data_None [OF a] read_pm_data_main_None [OF b] show ?thesis
    by simp
qed

text \<open>The header and 29 of the 30 remaining bytes of the sample frame.\<close>

theorem short_frame_fails_witness:
  "length (drop 2 (take 31 sample_frame)) < 30
   \<and> read_raw_data replay_read (reader_on (take 31 sample_frame)) =
       (Inr None, after_read ([], [2, 30]) (reader_on (take 31 sample_frame)))
   \<and> read_pm_data replay_read 0 (reader_on (take 31 sample_frame)) =
       (Inr None, after_read ([], [2, 30]) (reader_on (take 31 sample_frame)))
   \<and> read_raw_data_main replay_read (reader_on (take 31 sample_frame)) =
       (Inr None, after_read ([], [2, 30]) (reader_on (take 31 sample_frame)))
   \<and> read_pm_data_main replay_read 0 (reader_on (take 31 sample_frame)) =
       (Inr None, after_read ([], [2, 30]) (reader_on (take 31 sample_frame)))"
proof -
  have conn: "serial_conn (reader_on (take 31 sample_frame)) =
      Some \<lparr>is_open = True, dev = (take 31 sample_frame, [])\<rparr>"
    by (simp add: reader_on_def)
  have opened: "is_open \<lparr>is_open = True, dev = (take 31 sample_frame, [] :: nat list)\<rparr>"
    by simp
  have first: "replay_read 2 (dev \<lparr>is_open = True, dev = (take 31 sample_frame, [])\<rparr>) =
      (Inr HEADER, (drop 2 (take 31 sample_frame), [2]))"
    by code_simp
  have second: "replay_read 30 (drop 2 (take 31 sample_frame), [2]) =
      (Inr (drop 2 (take 31 sample_frame)), ([], [2, 30]))"
    by code_simp
  have short: "length (drop 2 (take 31 sample_frame)) < 30"
    by (simp add: sample_frame_def)
  from short_frame_fails [where rd = replay_read and now = 0, OF conn opened first second short] short
  show ?thesis by simp
qed

text \<open>
  Claim C5, as stated, asks for a result that is a synchronisation failure.
  The header with 29 of the 30 remaining bytes yields \<^verbatim>\<open>None\<close>, the value that
  a complete frame with a wrong checksum yields; in main.py the two calls agree
  in the returned value, the device and the log.
\<close>

theorem short_frame_untagged_counterexample:
  "fst (read_pm_data replay_read 0 (reader_on (take 31 sample_frame))) = Inr None
   \<and> fst (read_pm_data replay_read 0 (reader_on (take 31 sample_frame)))
       = fst (read_pm_data replay_read 0 (reader_on corrupt_frame))
   \<and> read_pm_data_main replay_read 0 (reader_on (take 31 sample_frame))
       = read_pm_data_main replay_read 0 (reader_on corrupt_frame)"
  by code_simp

section \<open>Checksum failure\<close>

text \<open>
  Claim C6, as amended. For every complete 32-byte frame whose checksum check
  fails, \<^verbatim>\<open>read_pm_data\<close> returns \<^verbatim>\<open>None\<close>, hence no measurement, and raises
  nothing. The result carries no tag; the module data.py adds the \<^verbatim>\<open>WARNING\<close>
  record ``Checksum validation failed'' to the log and main.py logs nothing.
\<close>

theorem checksum_failure_returns_None:
  assumes "serial_conn s = Some c" and "is_open c"
    and "rd 2 (dev c) = (Inr HEADER, d1)"
    and "rd 30 d1 = (Inr rest, d2)" and "length rest = 30"
    and "\<not> validate_checksum (HEADER @ rest)"
  shows "read_pm_data rd now s =
           (Inr None,
            (after_read d2 s)\<lparr>log_records := log_records s
               @ [(WARNING, ''Checksum validation failed'')]\<rparr>)
       \<and> read_pm_data_main rd now s = (Inr None, after_read d2 s)"
proof -
  have a: "read_raw_data rd s =
      (Inr None, logger WARNING ''Checksum validation failed'' (after_read d2 s))"
    by (rule read_raw_data_bad_checksum(1) [where rd = rd and rest = rest, OF assms])
  have b: "read_raw_data_main rd s = (Inr None, after_read d2 s)"
    by (rule read_raw_data_bad_checksum(2) [where rd = rd and rest = rest, OF assms])
  have "log_records (after_read d2 s) = log_records s"
    by (simp add: after_read_def)
  with read_pm_data_None [OF a] read_pm_data_main_None [OF b] show ?thesis
    by (simp add: logger_WARNING)
qed

text \<open>The sample frame with its last byte flipped.\<close>

theorem checksum_failure_returns_None_witness:
  "\<not> validate_checksum (HEADER @ drop 2 corrupt_frame)
   \<and> read_pm_data replay_read 0 (reader_on corrupt_frame) =
       (Inr None,
        (after_read ([], [2, 30]) (reader_on corrupt_frame))
          \<lparr>log_records := log_records (reader_on corrupt_frame)
             @ [(WARNING, ''Checksum validation failed'')]\<rparr>)
   \<and> read_pm_data_main replay_read 0 (reader_on corrupt_frame) =
       (Inr None, after_read ([], [2, 30]) (reader_on corrupt_frame))"
proof -
  have conn: "serial_conn (reader_on corrupt_frame) =
      Some \<lparr>is_open = True, dev = (corrupt_frame, [])\<rparr>"
    by (simp add: reader_on_def)
  have opened: "is_open \<lparr>is_open = True, dev = (corrupt_frame, [] :: nat list)\<rparr>"
    by simp
  have first: "replay_read 2 (dev \<lparr>is_open = True, dev = (corrupt_frame, [])\<rparr>) =
      (Inr HEADER, (drop 2 corrupt_frame, [2]))"
    by code_simp
  have second: "replay_read 30 (drop 2 corrupt_frame, [2]) =
      (Inr (drop 2 corrupt_frame), ([], [2, 30]))"
    by code_simp
  have len: "length (drop 2 corrupt_frame) = 30"
    by (simp add: corrupt_frame_def)
  have bad: "\<not> validate_checksum (HEADER @ drop 2 corrupt_frame)"
    by code_simp
  from checksum_failure_returns_None [where rd = replay_read and now = 0, OF conn opened first second len bad] bad
  show ?thesis by simp
qed

text \<open>
  Claim C6, as stated, asks for tagged failure results. The result of a
  checksum failure equals the result of a synchronisation failure (a header
  read that times out after one byte).
\<close>

theorem checksum_failure_untagged_counterexample:
  "fst (read_pm_data replay_read 0 (reader_on corrupt_frame))
     = fst (read_pm_data replay_read 0 (reader_on [0x42]))
   \<and> fst (read_pm_data_main replay_read 0 (reader_on corrupt_frame))
     = fst (read_pm_data_main replay_read 0 (reader_on [0x42]))"
  by code_simp

section \<open>Round trip\<close>

lemma from_bytes_to_bytes:
  assumes "0 \<le> v" and "v \<le> 65535"
  shows "from_bytes_big (to_bytes_big2 v) = v"
proof -
  from assms have hi: "0 \<le> v div 256" "v div 256 < 256" by simp_all
  have lo: "0 \<le> v mod 256" "v mod 256 < 256" by simp_all
  have "uint (word_of_int (v div 256) :: byte) = v div 256"
    using hi by (simp add: uint_word_of_int)
  moreover have "uint (word_of_int (v mod 256) :: byte) = v mod 256"
    using lo by (simp add: uint_word_of_int)
  ultimately show ?thesis
    by (simp add: to_bytes_big2_def from_bytes_big_pair)
qed

lemma length_to_bytes_big2: "length (to_bytes_big2 v) = 2"
  by (simp add: to_bytes_big2_def)

lemma length_frame_body:
  "length len_field = 2 \<Longrightarrow> length extra = 20 \<Longrightarrow>
     length (frame_body len_field v1 v2 v3 extra) = 30"
  by (simp add: frame_body_def length_to_bytes_big2 length_HEADER)

lemma build_frame_props:
  assumes "length len_field = 2" and "length extra = 20"
  shows "length (build_frame len_field v1 v2 v3 extra) = 32"
    and "all_but_last2 (build_frame len_field v1 v2 v3 extra) =
           frame_body len_field v1 v2 v3 extra"
    and "last2 (build_frame len_field v1 v2 v3 extra) =
           to_bytes_big2 (py_sum (frame_body len_field v1 v2 v3 extra))"
  using length_frame_body [OF assms, of v1 v2 v3]
  by (simp_all add: build_frame_def length_to_bytes_big2 all_but_last2_def last2_def)

lemma build_frame_slices:
  assumes "length len_field = 2" and "length extra = 20"
  shows "slice (build_frame len_field v1 v2 v3 extra) 4 6 = to_bytes_big2 v1"
    and "slice (build_frame len_field v1 v2 v3 extra) 6 8 = to_bytes_big2 v2"
    and "slice (build_frame len_field v1 v2 v3 extra) 8 10 = to_bytes_big2 v3"
  using assms
  by (simp_all add: build_frame_def frame_body_def length_to_bytes_big2 length_HEADER slice_def)

lemma build_frame_checksum:
  assumes "length len_field = 2" and "length extra = 20"
  shows "validate_checksum (build_frame len_field v1 v2 v3 extra)"
proof -
  let ?body = "frame_body len_field v1 v2 v3 extra"
  have "py_sum ?body \<le> 255 * int (length ?body)" by (rule py_sum_le)
  also have "\<dots> = 7650" using length_frame_body [OF assms, of v1 v2 v3] by simp
  finally have "py_sum ?body \<le> 65535" by simp
  with py_sum_nonneg [of ?body] have "from_bytes_big (to_bytes_big2 (py_sum ?body)) = py_sum ?body"
    by (rule from_bytes_to_bytes)
  then show ?thesis
    by (simp add: validate_checksum_def FRAME_LENGTH_def build_frame_props [OF assms])
qed

text \<open>
  Claim C3. For all raw values \<open>v1\<close>, \<open>v2\<close>, \<open>v3\<close> between 0 and 65535, a
  32-byte frame that starts with the header, carries the three values
  big-endian at the byte offsets 4, 6 and 8 and ends with the correct checksum
  is accepted by the checksum validator and decoded by \<^verbatim>\<open>parse_data\<close> to the
  measurement with \<open>pm1_0 = v1 / 10.0\<close>, \<open>pm2_5 = v2 / 10.0\<close> and
  \<open>pm10 = v3 / 10.0\<close>, the division being that of Python floats.
\<close>

theorem frame_round_trip:
  assumes "0 \<le> v1 \<and> v1 \<le> 65535" and "0 \<le> v2 \<and> v2 \<le> 65535" and "0 \<le> v3 \<and> v3 \<le> 65535"
    and "length len_field = 2" and "length extra = 20"
  shows "length (build_frame len_field v1 v2 v3 extra) = 32
       \<and> take 2 (build_frame len_field v1 v2 v3 extra) = HEADER
       \<and> validate_checksum (build_frame len_field v1 v2 v3 extra)
       \<and> parse_data now (build_frame len_field v1 v2 v3 extra) =
           Some \<lparr>pm1_0 = py_truediv v1 10, pm2_5 = py_truediv v2 10,
                 pm10 = py_truediv v3 10, timestamp = now\<rparr>"
proof -
  let ?f = "build_frame len_field v1 v2 v3 extra"
  have len: "length ?f = 32"
    using assms(4,5) by (rule build_frame_props)
  then have nonempty: "?f \<noteq> []" by auto
  have header: "take 2 ?f = HEADER"
    by (simp add: build_frame_def frame_body_def length_HEADER)
  have sum: "validate_checksum ?f"
    using assms(4,5) by (rule build_frame_checksum)
  have vals: "from_bytes_big (to_bytes_big2 v1) = v1" "from_bytes_big (to_bytes_big2 v2) = v2"
    "from_bytes_big (to_bytes_big2 v3) = v3"
    using assms(1-3) by (simp_all add: from_bytes_to_bytes)
  have "parse_data now ?f =
      Some \<lparr>pm1_0 = py_truediv v1 10, pm2_5 = py_truediv v2 10,
            pm10 = py_truediv v3 10, timestamp = now\<rparr>"
    using len nonempty
    by (simp add: parse_data_def FRAME_LENGTH_def build_frame_slices [OF assms(4,5)] vals)
  with len header sum show ?thesis by simp
qed

text \<open>The sample frame is built from the raw values 10, 25 and 40.\<close>

theorem frame_round_trip_witness:
  "build_frame [0x00, 0x1C] 10 25 40 (replicate 20 0x00) = sample_frame
   \<and> length sample_frame = 32 \<and> take 2 sample_frame = HEADER
   \<and> validate_checksum sample_frame
   \<and> parse_data 0 sample_frame = Some \<lparr>pm1_0 = 1, pm2_5 = 5 / 2, pm10 = 4, timestamp = 0\<rparr>"
proof -
  have build: "build_frame [0x00, 0x1C] 10 25 40 (replicate 20 0x00) = sample_frame"
    by code_simp
  have vals: "py_truediv 10 10 = 1" "py_truediv 25 10 = 5 / 2" "py_truediv 40 10 = 4"
    by code_simp+
  have "(0::int) \<le> 10 \<and> (10::int) \<le> 65535" "(0::int) \<le> 25 \<and> (25::int) \<le> 65535"
    "(0::int) \<le> 40 \<and> (40::int) \<le> 65535"
    "length [0x00, 0x1C :: byte] = 2" "length (replicate 20 (0x00 :: byte)) = 20"
    by simp_all
  from frame_round_trip [OF this, of 0] build show ?thesis
    by (simp only: vals simp_thms)
qed

end
